theory Spec2Isabelle
  imports Complex_Main
begin

section \<open>Data model of the dance choreographer\<close>

text \<open>
  The embedding follows \<^verbatim>\<open>dance_choreograph.py\<close>. A ROS time is its integer count of
  nanoseconds (a Python \<^verbatim>\<open>int\<close>); subtracting two times of the node's clock gives the
  difference of the counts. The quotient \<^verbatim>\<open>nanoseconds / float(1e9)\<close> and the script
  offsets are Python floats; they are modelled by real numbers, so the rounding of the
  division is idealised away.
\<close>

type_synonym time = int

definition seconds_of :: "int \<Rightarrow> real" where
  "seconds_of ns = real_of_int ns / 1000000000"

record led_color =
  red :: nat
  green :: nat
  blue :: nat

text \<open>The three action classes. \<open>Move\<close> holds its fields \<^verbatim>\<open>x\<close> and \<^verbatim>\<open>theta\<close>
  (already in radians per second), \<open>Lights\<close> its \<^verbatim>\<open>led_colors\<close>.\<close>

datatype action =
    Move real real
  | Lights "led_color list"
  | FinishedDance

text \<open>The exceptions the modelled code can raise: reading \<^verbatim>\<open>self.start_time\<close> before
  \<^verbatim>\<open>start_dance\<close> has set it, and reading \<^verbatim>\<open>leds[0]\<close> of an empty list.\<close>

datatype error = AttributeError | IndexError

text \<open>\<^verbatim>\<open>Lights.__init__\<close> stores its argument; it has no check and no raise.\<close>

definition Lights_init :: "led_color list \<Rightarrow> error + action" where
  "Lights_init cs = Inr (Lights cs)"

record choreographer =
  dance_sequence :: "(real \<times> action) list"
  action_index :: nat
  start_time :: "time option"

text \<open>\<^verbatim>\<open>DanceChoreographer.__init__\<close>: the attribute \<^verbatim>\<open>start_time\<close> does not exist yet,
  which is \<open>None\<close> here.\<close>

definition DanceChoreographer_init :: "(real \<times> action) list \<Rightarrow> error + choreographer" where
  "DanceChoreographer_init ds =
     Inr \<lparr>dance_sequence = ds, action_index = 0, start_time = None\<rparr>"

definition start_dance :: "choreographer \<Rightarrow> time \<Rightarrow> choreographer" where
  "start_dance c t = c\<lparr>start_time := Some t, action_index := 0\<rparr>"

text \<open>The \<^verbatim>\<open>while\<close> loop of \<^verbatim>\<open>get_next_actions\<close>: the state is the cursor and the list of
  actions collected so far.\<close>

function next_actions_loop ::
  "(real \<times> action) list \<Rightarrow> real \<Rightarrow> nat \<Rightarrow> action list \<Rightarrow> action list \<times> nat" where
  "next_actions_loop ds e idx acts =
     (if idx < length ds \<and> e \<ge> fst (ds ! idx)
      then next_actions_loop ds e (Suc idx) (acts @ [snd (ds ! idx)])
      else (acts, idx))"
  by pat_completeness auto
termination
  by (relation "measure (\<lambda>(ds, e, idx, acts). length ds - idx)") auto

declare next_actions_loop.simps [simp del]

definition get_next_actions :: "choreographer \<Rightarrow> time \<Rightarrow> error + (action list \<times> choreographer)" where
  "get_next_actions c t =
     (case start_time c of
        None \<Rightarrow> Inl AttributeError
      | Some s \<Rightarrow>
          (let time_into_dance = t - s;
               time_into_dance_seconds = seconds_of time_into_dance;
               (actions, idx) = next_actions_loop (dance_sequence c) time_into_dance_seconds
                                  (action_index c) []
           in Inr (actions, c\<lparr>action_index := idx\<rparr>)))"

text \<open>A sequence of queries on one choreographer; an exception ends the run.\<close>

fun run_queries :: "choreographer \<Rightarrow> time list \<Rightarrow> error + (action list list \<times> choreographer)" where
  "run_queries c [] = Inr ([], c)"
| "run_queries c (t # ts) =
     (case get_next_actions c t of
        Inl e \<Rightarrow> Inl e
      | Inr (acts, c') \<Rightarrow>
          (case run_queries c' ts of
             Inl e \<Rightarrow> Inl e
           | Inr (outs, c'') \<Rightarrow> Inr (acts # outs, c'')))"

section \<open>The command publisher\<close>

record twist =
  linear_x :: real
  linear_y :: real
  linear_z :: real
  angular_x :: real
  angular_y :: real
  angular_z :: real

record time_msg =
  sec :: int
  nanosec :: int

record std_header =
  stamp :: time_msg
  frame_id :: string

record lightring_leds =
  header :: std_header
  leds :: "led_color list"
  override_system :: bool

text \<open>The default-constructed messages \<^verbatim>\<open>Twist()\<close> and \<^verbatim>\<open>LightringLeds()\<close>, and
  \<^verbatim>\<open>Time.to_msg\<close>, which splits the nanosecond count.\<close>

definition Twist_init :: twist where
  "Twist_init = \<lparr>linear_x = 0, linear_y = 0, linear_z = 0,
                 angular_x = 0, angular_y = 0, angular_z = 0\<rparr>"

definition LightringLeds_init :: lightring_leds where
  "LightringLeds_init =
     \<lparr>header = \<lparr>stamp = \<lparr>sec = 0, nanosec = 0\<rparr>, frame_id = ''''\<rparr>,
      leds = replicate 6 \<lparr>red = 0, green = 0, blue = 0\<rparr>,
      override_system = False\<rparr>"

definition to_msg :: "time \<Rightarrow> time_msg" where
  "to_msg t = \<lparr>sec = t div 1000000000, nanosec = t mod 1000000000\<rparr>"

text \<open>What a tick does to the outside: the lines it logs and the messages it publishes on
  \<^verbatim>\<open>cmd_vel\<close> and \<^verbatim>\<open>cmd_lightring\<close>, each in the order of the calls.\<close>

datatype log_event =
    StartLog real
  | WaitingLog
  | MoveLog real real real
  | LightsLog real nat nat nat
  | FinishedLog real

datatype publication = PubVel twist | PubLights lightring_leds

record tick_output =
  logs :: "log_event list"
  pubs :: "publication list"

record publisher =
  dance_choreographer :: choreographer
  last_twist :: twist
  last_lightring :: lightring_leds
  ready :: bool
  last_wait_subscriber_printout :: "time option"

definition DanceCommandPublisher_init :: "choreographer \<Rightarrow> publisher" where
  "DanceCommandPublisher_init dc =
     \<lparr>dance_choreographer = dc,
      last_twist = Twist_init,
      last_lightring = LightringLeds_init\<lparr>override_system := False\<rparr>,
      ready = False,
      last_wait_subscriber_printout = None\<rparr>"

text \<open>What a tick reads from the node: the clock and the two subscription counts.\<close>

record tick_input =
  now :: time
  vel_subscription_count :: nat
  lights_subscription_count :: nat

text \<open>The \<^verbatim>\<open>for\<close> loop over the returned actions. The locals \<^verbatim>\<open>twist\<close> and
  \<^verbatim>\<open>lightring\<close> and the fields \<^verbatim>\<open>last_twist\<close> and \<^verbatim>\<open>last_lightring\<close> name the same
  objects before the loop and after every branch, so one pair stands for both. The
  assignment \<^verbatim>\<open>lightring.leds = next_action.led_colors\<close> is taken as a plain store (the
  message class is not part of this repository); the log line after it reads
  \<^verbatim>\<open>lightring.leds[0]\<close>, which raises on an empty list.\<close>

fun apply_actions ::
  "time \<Rightarrow> action list \<Rightarrow> twist \<times> lightring_leds \<times> log_event list \<Rightarrow>
   error + (twist \<times> lightring_leds \<times> log_event list)" where
  "apply_actions t [] s = Inr s"
| "apply_actions t (Move x theta # as) (tw, lr, lg) =
     apply_actions t as
       (Twist_init\<lparr>linear_x := x, angular_z := theta\<rparr>, lr,
        lg @ [MoveLog (seconds_of t) x theta])"
| "apply_actions t (Lights cs # as) (tw, lr, lg) =
     (case cs of
        [] \<Rightarrow> Inl IndexError
      | c0 # _ \<Rightarrow>
          apply_actions t as
            (tw, LightringLeds_init\<lparr>override_system := True, leds := cs\<rparr>,
             lg @ [LightsLog (seconds_of t) (red c0) (green c0) (blue c0)]))"
| "apply_actions t (FinishedDance # as) (tw, lr, lg) =
     apply_actions t as
       (Twist_init\<lparr>linear_x := 0, angular_z := 0\<rparr>,
        LightringLeds_init\<lparr>override_system := False\<rparr>,
        lg @ [FinishedLog (seconds_of t)])"

text \<open>Lines 139 to 167 of \<^verbatim>\<open>timer_callback\<close>: query, fold, stamp, publish. The stamp is
  written into the object that \<^verbatim>\<open>last_lightring\<close> names, so the field keeps it.\<close>

definition publish_step ::
  "publisher \<Rightarrow> time \<Rightarrow> log_event list \<Rightarrow> error + (tick_output \<times> publisher)" where
  "publish_step st t lg0 =
     (case get_next_actions (dance_choreographer st) t of
        Inl e \<Rightarrow> Inl e
      | Inr (next_actions, c') \<Rightarrow>
          (case apply_actions t next_actions (last_twist st, last_lightring st, lg0) of
             Inl e \<Rightarrow> Inl e
           | Inr (tw, lr, lg) \<Rightarrow>
               (let lr' = lr\<lparr>header := (header lr)\<lparr>stamp := to_msg t\<rparr>\<rparr>
                in Inr (\<lparr>logs = lg, pubs = [PubVel tw, PubLights lr']\<rparr>,
                        st\<lparr>dance_choreographer := c', last_twist := tw,
                           last_lightring := lr'\<rparr>))))"

definition timer_callback ::
  "publisher \<Rightarrow> tick_input \<Rightarrow> error + (tick_output \<times> publisher)" where
  "timer_callback st i =
     (let current_time = now i in
      if \<not> ready st then
        if vel_subscription_count i > 0 \<and> lights_subscription_count i \<ge> 0 then
          publish_step
            (st\<lparr>ready := True,
                dance_choreographer := start_dance (dance_choreographer st) current_time\<rparr>)
            current_time [StartLog (seconds_of current_time)]
        else if last_wait_subscriber_printout st = None
                \<or> seconds_of (current_time - the (last_wait_subscriber_printout st)) > 5
        then Inr (\<lparr>logs = [WaitingLog], pubs = []\<rparr>,
                  st\<lparr>last_wait_subscriber_printout := Some current_time\<rparr>)
        else Inr (\<lparr>logs = [], pubs = []\<rparr>, st)
      else publish_step st current_time [])"

text \<open>A run of the timer: one callback per input, in order; an exception ends the run.\<close>

fun run_ticks ::
  "publisher \<Rightarrow> tick_input list \<Rightarrow> error + (tick_output list \<times> publisher)" where
  "run_ticks st [] = Inr ([], st)"
| "run_ticks st (i # is) =
     (case timer_callback st i of
        Inl e \<Rightarrow> Inl e
      | Inr (out, st') \<Rightarrow>
          (case run_ticks st' is of
             Inl e \<Rightarrow> Inl e
           | Inr (outs, st'') \<Rightarrow> Inr (out # outs, st'')))"

section \<open>The query loop as a prefix of the remaining script\<close>

lemma next_actions_loop_takeWhile:
  "next_actions_loop ds e idx acts =
     (acts @ map snd (takeWhile (\<lambda>p. fst p \<le> e) (drop idx ds)),
      idx + length (takeWhile (\<lambda>p. fst p \<le> e) (drop idx ds)))"
proof (induction ds e idx acts rule: next_actions_loop.induct)
  case (1 ds e idx acts)
  show ?case
  proof (cases "idx < length ds \<and> e \<ge> fst (ds ! idx)")
    case True
    then have d: "drop idx ds = ds ! idx # drop (Suc idx) ds"
      by (simp add: Cons_nth_drop_Suc)
    from True "1.IH" show ?thesis
      by (subst next_actions_loop.simps) (simp add: d)
  next
    case False
    show ?thesis
    proof (cases "idx < length ds")
      case True
      then have d: "drop idx ds = ds ! idx # drop (Suc idx) ds"
        by (simp add: Cons_nth_drop_Suc)
      from False True show ?thesis
        by (subst next_actions_loop.simps) (simp add: d)
    next
      case False
      then show ?thesis
        by (subst next_actions_loop.simps) simp
    qed
  qed
qed

lemma seconds_of_gt5: "seconds_of d > 5 \<longleftrightarrow> d > 5000000000"
  by (simp add: seconds_of_def field_simps)

lemma seconds_of_mono: "a \<le> b \<Longrightarrow> seconds_of a \<le> seconds_of b"
  by (simp add: seconds_of_def divide_right_mono)

lemma seconds_of_zero: "seconds_of 0 = 0"
  by (simp add: seconds_of_def)

lemma seconds_of_neg: "d < 0 \<Longrightarrow> seconds_of d < 0"
  by (simp add: seconds_of_def)

lemma get_next_actions_Some:
  "start_time c = Some s \<Longrightarrow>
   get_next_actions c t =
     Inr (map snd (takeWhile (\<lambda>p. fst p \<le> seconds_of (t - s))
                     (drop (action_index c) (dance_sequence c))),
          c\<lparr>action_index := action_index c
               + length (takeWhile (\<lambda>p. fst p \<le> seconds_of (t - s))
                           (drop (action_index c) (dance_sequence c)))\<rparr>)"
  by (simp add: get_next_actions_def next_actions_loop_takeWhile Let_def)

lemma get_next_actions_None:
  "start_time c = None \<Longrightarrow> get_next_actions c t = Inl AttributeError"
  by (simp add: get_next_actions_def)

lemma takeWhile_sorted_filter:
  "sorted (map fst xs) \<Longrightarrow>
   takeWhile (\<lambda>p. fst p \<le> (e::real)) xs = filter (\<lambda>p. fst p \<le> e) xs"
proof (induction xs)
  case Nil
  then show ?case by simp
next
  case (Cons x xs)
  show ?case
  proof (cases "fst x \<le> e")
    case True
    with Cons show ?thesis by simp
  next
    case False
    with Cons.prems have "\<forall>p\<in>set xs. \<not> fst p \<le> e" by fastforce
    with False show ?thesis by simp
  qed
qed

lemma takeWhile_after_takeWhile:
  "(\<And>x. Q x \<Longrightarrow> P x) \<Longrightarrow> takeWhile Q (drop (length (takeWhile P xs)) xs) = []"
  by (induction xs) auto

lemma get_next_actions_idle_same:
  "get_next_actions c t = Inr ([], c') \<Longrightarrow> c' = c"
  by (cases "start_time c") (auto simp: get_next_actions_Some get_next_actions_None)

lemma get_next_actions_fields:
  "get_next_actions c t = Inr (acts, c') \<Longrightarrow>
   dance_sequence c' = dance_sequence c \<and> start_time c' = start_time c
   \<and> action_index c \<le> action_index c'
   \<and> (action_index c \<le> length (dance_sequence c)
        \<longrightarrow> action_index c' \<le> length (dance_sequence c))"
proof (cases "start_time c")
  case None
  assume "get_next_actions c t = Inr (acts, c')"
  with None show ?thesis by (simp add: get_next_actions_None)
next
  case (Some s)
  assume g: "get_next_actions c t = Inr (acts, c')"
  have "length (takeWhile (\<lambda>p. fst p \<le> seconds_of (t - s))
                  (drop (action_index c) (dance_sequence c)))
        \<le> length (dance_sequence c) - action_index c"
    using length_takeWhile_le [of _ "drop (action_index c) (dance_sequence c)"] by simp
  with g Some show ?thesis
    by (auto simp: get_next_actions_Some)
qed

section \<open>The sequencer\<close>

text \<open>
  Claim C9. The cursor \<^verbatim>\<open>action_index\<close> is a natural number that starts at 0 and is
  only ever incremented or reset to 0. Whenever it is at most the length of the script, a
  call of \<^verbatim>\<open>get_next_actions\<close> either raises because the dance was never started, or
  returns with a cursor that has not decreased and is still at most the length of the
  script, with the script and the start time unchanged. \<^verbatim>\<open>start_dance\<close> records the
  start time, resets the cursor to 0, leaves the script unchanged, and can be called again:
  a second call simply overrides the first.
\<close>

theorem cursor_bounds_and_restart:
  assumes "action_index c \<le> length (dance_sequence c)"
  shows "(case get_next_actions c t of
            Inl e \<Rightarrow> start_time c = None
          | Inr (acts, c') \<Rightarrow>
              action_index c \<le> action_index c'
              \<and> action_index c' \<le> length (dance_sequence c')
              \<and> dance_sequence c' = dance_sequence c
              \<and> start_time c' = start_time c)
         \<and> start_time (start_dance c t) = Some t
         \<and> action_index (start_dance c t) = 0
         \<and> dance_sequence (start_dance c t) = dance_sequence c
         \<and> start_dance (start_dance c t) t' = start_dance c t'"
proof -
  have "case get_next_actions c t of
            Inl e \<Rightarrow> start_time c = None
          | Inr (acts, c') \<Rightarrow>
              action_index c \<le> action_index c'
              \<and> action_index c' \<le> length (dance_sequence c')
              \<and> dance_sequence c' = dance_sequence c
              \<and> start_time c' = start_time c"
  proof (cases "get_next_actions c t")
    case (Inl e)
    then show ?thesis
      by (cases "start_time c") (simp_all add: get_next_actions_Some)
  next
    case (Inr r)
    obtain acts c' where r: "r = (acts, c')" by (cases r)
    from get_next_actions_fields [of c t acts c'] Inr r assms show ?thesis
      by simp
  qed
  then show ?thesis
    by (simp add: start_dance_def)
qed

theorem cursor_bounds_and_restart_witness:
  "action_index \<lparr>dance_sequence = [(0, Move 1 0), (1, FinishedDance)], action_index = 0,
                  start_time = Some 0\<rparr>
     \<le> length (dance_sequence \<lparr>dance_sequence = [(0, Move 1 0), (1, FinishedDance)],
                                  action_index = 0, start_time = Some 0\<rparr>)
   \<and> get_next_actions \<lparr>dance_sequence = [(0, Move 1 0), (1, FinishedDance)], action_index = 0,
                        start_time = Some 0\<rparr> 500000000
       = Inr ([Move 1 0], \<lparr>dance_sequence = [(0, Move 1 0), (1, FinishedDance)],
                           action_index = 1, start_time = Some 0\<rparr>)"
  using cursor_bounds_and_restart
          [of "\<lparr>dance_sequence = [(0, Move 1 0), (1, FinishedDance)], action_index = 0,
                start_time = Some 0\<rparr>" 500000000 0]
  by (simp add: get_next_actions_Some seconds_of_def)

lemma sorted_offsets_drop:
  "sorted (map fst ds) \<Longrightarrow> sorted (map fst (drop n ds))"
  by (simp add: drop_map [symmetric] sorted_wrt_drop)

text \<open>
  Claim C7. For a started choreographer whose script has non-decreasing offsets (what the
  data model calls a script), a call of \<^verbatim>\<open>get_next_actions\<close> at time \<open>t\<close> returns, in
  script order, exactly the not yet consumed actions whose offset is at most the elapsed
  time \<open>t - start_time\<close>, and a second call at the same \<open>t\<close> returns the empty list and
  leaves the choreographer as it is.
\<close>

theorem advance_twice_same_time:
  assumes "sorted (map fst (dance_sequence c))" and "start_time c = Some s"
  shows "\<exists>c1. get_next_actions c t =
                 Inr (map snd (filter (\<lambda>p. fst p \<le> seconds_of (t - s))
                                 (drop (action_index c) (dance_sequence c))), c1)
              \<and> get_next_actions c1 t = Inr ([], c1)"
proof -
  let ?P = "\<lambda>p. fst p \<le> seconds_of (t - s)"
  let ?rest = "drop (action_index c) (dance_sequence c)"
  let ?c1 = "c\<lparr>action_index := action_index c + length (takeWhile ?P ?rest)\<rparr>"
  have first: "get_next_actions c t = Inr (map snd (filter ?P ?rest), ?c1)"
    using assms
    by (simp add: get_next_actions_Some takeWhile_sorted_filter [OF sorted_offsets_drop])
  have "drop (action_index ?c1) (dance_sequence ?c1) = drop (length (takeWhile ?P ?rest)) ?rest"
    by (simp add: add.commute)
  then have "takeWhile ?P (drop (action_index ?c1) (dance_sequence ?c1)) = []"
    by (simp only: takeWhile_after_takeWhile)
  moreover have "start_time ?c1 = Some s"
    using assms by simp
  ultimately have "get_next_actions ?c1 t = Inr ([], ?c1)"
    by (simp add: get_next_actions_Some)
  with first show ?thesis by blast
qed

theorem advance_twice_same_time_witness:
  "sorted (map fst [(0, Move 1 0), (1, FinishedDance), (2::real, Move 0 0)])
   \<and> get_next_actions
        \<lparr>dance_sequence = [(0, Move 1 0), (1, FinishedDance), (2, Move 0 0)],
         action_index = 0, start_time = Some 0\<rparr> 1500000000
       = Inr ([Move 1 0, FinishedDance],
              \<lparr>dance_sequence = [(0, Move 1 0), (1, FinishedDance), (2, Move 0 0)],
               action_index = 2, start_time = Some 0\<rparr>)
   \<and> get_next_actions
        \<lparr>dance_sequence = [(0, Move 1 0), (1, FinishedDance), (2, Move 0 0)],
         action_index = 2, start_time = Some 0\<rparr> 1500000000
       = Inr ([], \<lparr>dance_sequence = [(0, Move 1 0), (1, FinishedDance), (2, Move 0 0)],
                   action_index = 2, start_time = Some 0\<rparr>)"
  using advance_twice_same_time
          [of "\<lparr>dance_sequence = [(0, Move 1 0), (1, FinishedDance), (2, Move 0 0)],
                action_index = 0, start_time = Some 0\<rparr>" 0 1500000000]
  by (simp add: get_next_actions_Some seconds_of_def)

text \<open>
  Claim C8. For a script with non-decreasing offsets, \<^verbatim>\<open>get_next_actions\<close> called with
  the very time that was given to \<^verbatim>\<open>start_dance\<close> returns, in script order, the actions
  whose offset is at most 0; when no offset is negative, as the data model requires, these
  are exactly the actions whose offset is 0.
\<close>

theorem zero_offset_fires_at_start:
  assumes "sorted (map fst (dance_sequence c))"
  shows "\<exists>acts c1. get_next_actions (start_dance c t) t = Inr (acts, c1)
           \<and> acts = map snd (filter (\<lambda>p. fst p \<le> 0) (dance_sequence c))
           \<and> ((\<forall>p\<in>set (dance_sequence c). 0 \<le> fst p)
                \<longrightarrow> acts = map snd (filter (\<lambda>p. fst p = 0) (dance_sequence c)))"
proof -
  have st: "start_time (start_dance c t) = Some t"
    by (simp add: start_dance_def)
  have tw: "takeWhile (\<lambda>p. fst p \<le> (0::real)) (dance_sequence c)
              = filter (\<lambda>p. fst p \<le> 0) (dance_sequence c)"
    using assms by (rule takeWhile_sorted_filter)
  have nonneg: "(\<forall>p\<in>set (dance_sequence c). 0 \<le> fst p)
                 \<longrightarrow> filter (\<lambda>p. fst p \<le> 0) (dance_sequence c)
                       = filter (\<lambda>p. fst p = 0) (dance_sequence c)"
    by (auto intro!: filter_cong)
  have rest: "drop (action_index (start_dance c t)) (dance_sequence (start_dance c t))
                = dance_sequence c"
    by (simp add: start_dance_def)
  have "get_next_actions (start_dance c t) t
          = Inr (map snd (filter (\<lambda>p. fst p \<le> 0) (dance_sequence c)),
                 (start_dance c t)\<lparr>action_index := action_index (start_dance c t)
                    + length (filter (\<lambda>p. fst p \<le> 0) (dance_sequence c))\<rparr>)"
    by (simp only: get_next_actions_Some [OF st] rest diff_self seconds_of_zero tw)
  with nonneg show ?thesis
    by simp
qed

theorem zero_offset_fires_at_start_witness:
  "sorted (map fst [(0, Move 1 0), (0, FinishedDance), (2::real, Move 0 0)])
   \<and> list_all (\<lambda>p. 0 \<le> fst p) [(0, Move 1 0), (0, FinishedDance), (2::real, Move 0 0)]
   \<and> get_next_actions
        (start_dance \<lparr>dance_sequence = [(0, Move 1 0), (0, FinishedDance), (2, Move 0 0)],
                      action_index = 2, start_time = None\<rparr> 7000000000) 7000000000
       = Inr ([Move 1 0, FinishedDance],
              \<lparr>dance_sequence = [(0, Move 1 0), (0, FinishedDance), (2, Move 0 0)],
               action_index = 2, start_time = Some 7000000000\<rparr>)"
  using zero_offset_fires_at_start
          [of "\<lparr>dance_sequence = [(0, Move 1 0), (0, FinishedDance), (2, Move 0 0)],
                action_index = 2, start_time = None\<rparr>" 7000000000]
  by (simp add: get_next_actions_Some start_dance_def seconds_of_def)

lemma get_next_actions_start_time:
  "start_time c = Some s \<Longrightarrow> get_next_actions c t = Inr (acts, c1) \<Longrightarrow>
   start_time c1 = Some s \<and> dance_sequence c1 = dance_sequence c"
  by (auto simp: get_next_actions_Some)

lemma run_queries_prefix:
  "start_time c = Some s \<Longrightarrow>
   \<exists>outs c'. run_queries c ts = Inr (outs, c') \<and> length outs = length ts
     \<and> start_time c' = Some s \<and> dance_sequence c' = dance_sequence c
     \<and> map snd (take (action_index c') (dance_sequence c))
         = map snd (take (action_index c) (dance_sequence c)) @ concat outs
     \<and> (\<forall>out\<in>set outs. \<exists>i. out = map snd (take (length out) (drop i (dance_sequence c))))"
proof (induction ts arbitrary: c)
  case Nil
  then show ?case by simp
next
  case (Cons t ts)
  let ?ds = "dance_sequence c"
  let ?tw = "takeWhile (\<lambda>p. fst p \<le> seconds_of (t - s)) (drop (action_index c) ?ds)"
  let ?c1 = "c\<lparr>action_index := action_index c + length ?tw\<rparr>"
  have q: "get_next_actions c t = Inr (map snd ?tw, ?c1)"
    using Cons.prems by (simp add: get_next_actions_Some)
  have "start_time ?c1 = Some s"
    using Cons.prems by simp
  from Cons.IH [OF this] obtain outs c' where
    r: "run_queries ?c1 ts = Inr (outs, c')" and
    l: "length outs = length ts" and
    s': "start_time c' = Some s" and
    d: "dance_sequence c' = ?ds" and
    p: "map snd (take (action_index c') ?ds)
          = map snd (take (action_index c + length ?tw) ?ds) @ concat outs" and
    o: "\<forall>out\<in>set outs. \<exists>i. out = map snd (take (length out) (drop i ?ds))"
    by auto
  have tw: "?tw = take (length ?tw) (drop (action_index c) ?ds)"
    by (rule takeWhile_eq_take)
  have "take (action_index c + length ?tw) ?ds = take (action_index c) ?ds @ ?tw"
    using tw by (simp add: take_add)
  with p have p': "map snd (take (action_index c') ?ds)
          = map snd (take (action_index c) ?ds) @ concat (map snd ?tw # outs)"
    by simp
  have "map snd ?tw = map snd (take (length (map snd ?tw)) (drop (action_index c) ?ds))"
    using tw by simp
  then have h: "\<exists>i. map snd ?tw = map snd (take (length (map snd ?tw)) (drop i ?ds))"
    by (rule exI)
  have "run_queries c (t # ts) = Inr (map snd ?tw # outs, c')"
    using q r by simp
  with l s' d p' o h show ?case
    by (intro exI [of _ "map snd ?tw # outs"] exI [of _ c']) simp
qed

lemma take_after_query:
  assumes "sorted (map fst ds)" and "\<forall>p\<in>set (take idx ds). fst p \<le> (e::real)"
  shows "take (idx + length (takeWhile (\<lambda>p. fst p \<le> e) (drop idx ds))) ds
           = filter (\<lambda>p. fst p \<le> e) ds"
proof -
  let ?P = "\<lambda>p. fst p \<le> e"
  have tw: "takeWhile ?P (drop idx ds) = filter ?P (drop idx ds)"
    using assms(1) by (intro takeWhile_sorted_filter) (simp add: drop_map [symmetric] sorted_wrt_drop)
  have "take (idx + length (takeWhile ?P (drop idx ds))) ds
          = take idx ds @ take (length (takeWhile ?P (drop idx ds))) (drop idx ds)"
    by (simp add: take_add)
  also have "\<dots> = take idx ds @ takeWhile ?P (drop idx ds)"
    using takeWhile_eq_take [of ?P "drop idx ds"] by simp
  also have "\<dots> = filter ?P (take idx ds) @ filter ?P (drop idx ds)"
    using assms(2) tw by simp
  also have "\<dots> = filter ?P (take idx ds @ drop idx ds)"
    by (simp only: filter_append)
  also have "\<dots> = filter ?P ds"
    by (simp only: append_take_drop_id)
  finally show ?thesis .
qed

lemma run_queries_final_cursor:
  "sorted (map fst (dance_sequence c)) \<Longrightarrow> start_time c = Some s \<Longrightarrow>
   sorted_wrt (<) ts \<Longrightarrow> ts \<noteq> [] \<Longrightarrow>
   \<forall>p\<in>set (take (action_index c) (dance_sequence c)). fst p \<le> seconds_of (hd ts - s) \<Longrightarrow>
   run_queries c ts = Inr (outs, c') \<Longrightarrow>
   take (action_index c') (dance_sequence c)
     = filter (\<lambda>p. fst p \<le> seconds_of (last ts - s)) (dance_sequence c)"
proof (induction ts arbitrary: c outs)
  case Nil
  then show ?case by simp
next
  case (Cons t ts)
  let ?ds = "dance_sequence c"
  let ?P = "\<lambda>p. fst p \<le> seconds_of (t - s)"
  let ?tw = "takeWhile ?P (drop (action_index c) ?ds)"
  let ?c1 = "c\<lparr>action_index := action_index c + length ?tw\<rparr>"
  have q: "get_next_actions c t = Inr (map snd ?tw, ?c1)"
    using Cons.prems(2) by (simp add: get_next_actions_Some)
  have tk: "take (action_index ?c1) ?ds = filter ?P ?ds"
    using take_after_query [of ?ds "action_index c" "seconds_of (t - s)"] Cons.prems(1,5)
    by simp
  show ?case
  proof (cases ts)
    case Nil
    with Cons.prems(6) q have "c' = ?c1" by simp
    with tk Nil show ?thesis by simp
  next
    case (Cons t2 ts2)
    from Cons.prems(6) q obtain outs' where r: "run_queries ?c1 ts = Inr (outs', c')"
      by (auto split: sum.splits)
    have lt: "t < t2"
      using Cons.prems(3) Cons by simp
    then have "seconds_of (t - s) \<le> seconds_of (t2 - s)"
      by (intro seconds_of_mono) simp
    with tk have pre: "\<forall>p\<in>set (take (action_index ?c1) (dance_sequence ?c1)).
                          fst p \<le> seconds_of (hd ts - s)"
      using Cons by auto
    have "take (action_index c') (dance_sequence ?c1)
            = filter (\<lambda>p. fst p \<le> seconds_of (last ts - s)) (dance_sequence ?c1)"
      using Cons.prems(1,2,3) Cons r pre
      by (intro Cons.IH [of ?c1 outs']) simp_all
    with Cons show ?thesis by simp
  qed
qed

text \<open>
  Claim C1, as the code has it. An action that is not yet due when the last query is made is
  returned by no call, so "every action is returned by exactly one call" holds only for the
  actions whose offset has elapsed. For a script with non-decreasing offsets and strictly
  increasing query times after \<^verbatim>\<open>start_dance\<close>: every query returns; the results of the
  calls, one after the other, are exactly the first \<^verbatim>\<open>action_index\<close> actions of the script,
  each once and in script order; every single result is a contiguous piece of the script;
  and after the last query the consumed actions are exactly those whose offset is at most
  the elapsed time of that query.
\<close>

theorem each_due_action_exactly_once:
  assumes "sorted (map fst (dance_sequence c))" and "sorted_wrt (<) ts"
  shows "\<exists>outs c'. run_queries (start_dance c s) ts = Inr (outs, c')
           \<and> length outs = length ts
           \<and> concat outs = map snd (take (action_index c') (dance_sequence c))
           \<and> (\<forall>out\<in>set outs. \<exists>i. out = map snd (take (length out) (drop i (dance_sequence c))))
           \<and> (ts \<noteq> [] \<longrightarrow>
                take (action_index c') (dance_sequence c)
                  = filter (\<lambda>p. fst p \<le> seconds_of (last ts - s)) (dance_sequence c))"
proof -
  let ?c0 = "start_dance c s"
  have st: "start_time ?c0 = Some s" and ds: "dance_sequence ?c0 = dance_sequence c"
    and ix: "action_index ?c0 = 0"
    by (simp_all add: start_dance_def)
  from run_queries_prefix [OF st, of ts] obtain outs c' where
    r: "run_queries ?c0 ts = Inr (outs, c')" and
    l: "length outs = length ts" and
    p: "map snd (take (action_index c') (dance_sequence ?c0))
          = map snd (take (action_index ?c0) (dance_sequence ?c0)) @ concat outs" and
    o: "\<forall>out\<in>set outs. \<exists>i. out = map snd (take (length out) (drop i (dance_sequence ?c0)))"
    by blast
  have p': "concat outs = map snd (take (action_index c') (dance_sequence c))"
    using p by (simp add: ds ix)
  have f: "ts \<noteq> [] \<longrightarrow>
             take (action_index c') (dance_sequence c)
               = filter (\<lambda>p. fst p \<le> seconds_of (last ts - s)) (dance_sequence c)"
  proof
    assume ne: "ts \<noteq> []"
    have "take (action_index c') (dance_sequence ?c0)
            = filter (\<lambda>p. fst p \<le> seconds_of (last ts - s)) (dance_sequence ?c0)"
      using assms ne r by (intro run_queries_final_cursor [of ?c0 s ts outs c']) (simp_all add: ds ix st)
    then show "take (action_index c') (dance_sequence c)
                 = filter (\<lambda>p. fst p \<le> seconds_of (last ts - s)) (dance_sequence c)"
      by (simp add: ds)
  qed
  from r l p' o f show ?thesis
    by (simp add: ds)
qed

theorem each_due_action_exactly_once_witness:
  "sorted (map fst [(0, Move 1 0), (1, FinishedDance), (5::real, Move 0 0)])
   \<and> sorted_wrt (<) [500000000, 1500000000::int]
   \<and> run_queries
        (start_dance \<lparr>dance_sequence = [(0, Move 1 0), (1, FinishedDance), (5, Move 0 0)],
                      action_index = 0, start_time = None\<rparr> 0)
        [500000000, 1500000000]
       = Inr ([[Move 1 0], [FinishedDance]],
              \<lparr>dance_sequence = [(0, Move 1 0), (1, FinishedDance), (5, Move 0 0)],
               action_index = 2, start_time = Some 0\<rparr>)"
  using each_due_action_exactly_once
          [of "\<lparr>dance_sequence = [(0, Move 1 0), (1, FinishedDance), (5, Move 0 0)],
                action_index = 0, start_time = None\<rparr>" "[500000000, 1500000000]" 0]
  by (simp add: get_next_actions_Some start_dance_def seconds_of_def)

text \<open>
  The claim as stated fails on a script whose only action is due after 5 seconds when the
  queries stop after 2 seconds: both calls return the empty list, so the action is returned
  by no call.
\<close>

theorem exactly_once_counterexample:
  "run_queries
     (start_dance \<lparr>dance_sequence = [(5, FinishedDance)], action_index = 0,
                   start_time = None\<rparr> 0)
     [1000000000, 2000000000]
   = Inr ([[], []],
          \<lparr>dance_sequence = [(5, FinishedDance)], action_index = 0, start_time = Some 0\<rparr>)"
  by (simp add: get_next_actions_Some start_dance_def seconds_of_def)

text \<open>A cursor is blocked at \<open>e\<close> when it is at the end of the script or the offset under
  it is greater than \<open>e\<close>; a query with elapsed time at most \<open>e\<close> then does nothing.\<close>

lemma takeWhile_Nil_weaken:
  "takeWhile P xs = [] \<Longrightarrow> (\<And>x. Q x \<Longrightarrow> P x) \<Longrightarrow> takeWhile Q xs = []"
  by (cases xs) (auto split: if_splits)

lemma blocked_query_noop:
  assumes "start_time c = Some s"
    and "takeWhile (\<lambda>p. fst p \<le> e) (drop (action_index c) (dance_sequence c)) = []"
    and "seconds_of (t - s) \<le> e"
  shows "get_next_actions c t = Inr ([], c)"
proof -
  have "takeWhile (\<lambda>p. fst p \<le> seconds_of (t - s))
          (drop (action_index c) (dance_sequence c)) = []"
    using assms(2) by (rule takeWhile_Nil_weaken) (use assms(3) in simp)
  with assms(1) show ?thesis
    by (simp add: get_next_actions_Some)
qed

lemma query_blocks:
  assumes "start_time c = Some s" and "get_next_actions c t = Inr (acts, c1)"
  shows "takeWhile (\<lambda>p. fst p \<le> seconds_of (t - s))
           (drop (action_index c1) (dance_sequence c1)) = []"
proof -
  let ?P = "\<lambda>p. fst p \<le> seconds_of (t - s)"
  let ?rest = "drop (action_index c) (dance_sequence c)"
  from assms have c1: "c1 = c\<lparr>action_index := action_index c + length (takeWhile ?P ?rest)\<rparr>"
    by (simp add: get_next_actions_Some)
  have "drop (action_index c1) (dance_sequence c1) = drop (length (takeWhile ?P ?rest)) ?rest"
    by (simp add: c1 add.commute)
  then show ?thesis
    by (simp only: takeWhile_after_takeWhile)
qed

lemma blocked_preserved:
  assumes "start_time c = Some s"
    and "takeWhile (\<lambda>p. fst p \<le> e) (drop (action_index c) (dance_sequence c)) = []"
    and "get_next_actions c t = Inr (acts, c1)"
  shows "takeWhile (\<lambda>p. fst p \<le> e) (drop (action_index c1) (dance_sequence c1)) = []"
proof (cases "seconds_of (t - s) \<le> e")
  case True
  from blocked_query_noop [OF assms(1,2) True] assms(3) have "c1 = c" by simp
  with assms(2) show ?thesis by simp
next
  case False
  from query_blocks [OF assms(1,3)] show ?thesis
    by (rule takeWhile_Nil_weaken) (use False in simp)
qed

lemma run_queries_blocked_preserved:
  "start_time c = Some s \<Longrightarrow>
   takeWhile (\<lambda>p. fst p \<le> e) (drop (action_index c) (dance_sequence c)) = [] \<Longrightarrow>
   run_queries c ts = Inr (outs, c1) \<Longrightarrow>
   start_time c1 = Some s
   \<and> takeWhile (\<lambda>p. fst p \<le> e) (drop (action_index c1) (dance_sequence c1)) = []"
proof (induction ts arbitrary: c outs)
  case Nil
  then show ?case by simp
next
  case (Cons t ts)
  from Cons.prems(3) obtain acts c2 outs' where
    q: "get_next_actions c t = Inr (acts, c2)" and r: "run_queries c2 ts = Inr (outs', c1)"
    by (auto split: sum.splits)
  have "start_time c2 = Some s"
    using get_next_actions_start_time [OF Cons.prems(1) q] by simp
  moreover have "takeWhile (\<lambda>p. fst p \<le> e) (drop (action_index c2) (dance_sequence c2)) = []"
    using blocked_preserved [OF Cons.prems(1,2) q] .
  ultimately show ?case
    using r by (rule Cons.IH)
qed

lemma run_queries_blocks:
  "start_time c = Some s \<Longrightarrow> t \<in> set ts \<Longrightarrow> run_queries c ts = Inr (outs, c1) \<Longrightarrow>
   start_time c1 = Some s
   \<and> takeWhile (\<lambda>p. fst p \<le> seconds_of (t - s))
        (drop (action_index c1) (dance_sequence c1)) = []"
proof (induction ts arbitrary: c outs)
  case Nil
  then show ?case by simp
next
  case (Cons u ts)
  from Cons.prems(3) obtain acts c2 outs' where
    q: "get_next_actions c u = Inr (acts, c2)" and r: "run_queries c2 ts = Inr (outs', c1)"
    by (auto split: sum.splits)
  have s2: "start_time c2 = Some s"
    using get_next_actions_start_time [OF Cons.prems(1) q] by simp
  show ?case
  proof (cases "t = u")
    case True
    have "takeWhile (\<lambda>p. fst p \<le> seconds_of (t - s))
            (drop (action_index c2) (dance_sequence c2)) = []"
      using query_blocks [OF Cons.prems(1) q] True by simp
    with s2 show ?thesis
      using r by (rule run_queries_blocked_preserved)
  next
    case False
    with Cons.prems(2) have "t \<in> set ts" by simp
    with s2 show ?thesis
      using r by (rule Cons.IH)
  qed
qed

text \<open>
  Claim C6, as the code has it. The choreographer keeps no record of the times it has seen
  and has no clock-regression condition. A call of \<^verbatim>\<open>get_next_actions\<close> with a time
  earlier than one passed to an earlier call since \<^verbatim>\<open>start_dance\<close> (or earlier than the
  start time itself, when no offset of the script is negative) returns normally, with the
  empty list and the choreographer, cursor included, unchanged.
\<close>

theorem earlier_time_is_silent_noop:
  assumes "run_queries (start_dance c s) ts = Inr (outs, c1)"
    and "t \<in> set ts \<or> (t = s \<and> (\<forall>p\<in>set (dance_sequence c). 0 \<le> fst p))"
    and "t2 < t"
  shows "get_next_actions c1 t2 = Inr ([], c1)"
proof -
  let ?c0 = "start_dance c s"
  have st: "start_time ?c0 = Some s"
    by (simp add: start_dance_def)
  have le: "seconds_of (t2 - s) \<le> seconds_of (t - s)"
    using assms(3) by (intro seconds_of_mono) simp
  from assms(2) show ?thesis
  proof
    assume "t \<in> set ts"
    from run_queries_blocks [OF st this assms(1)] le show ?thesis
      by (intro blocked_query_noop [where e = "seconds_of (t - s)" and s = s]) simp_all
  next
    assume a: "t = s \<and> (\<forall>p\<in>set (dance_sequence c). 0 \<le> fst p)"
    have neg: "seconds_of (t2 - s) < 0"
      using assms(3) a by (intro seconds_of_neg) simp
    have "takeWhile (\<lambda>p. fst p \<le> seconds_of (t2 - s))
            (drop (action_index ?c0) (dance_sequence ?c0)) = []"
    proof (cases "dance_sequence c")
      case Nil
      then show ?thesis by (simp add: start_dance_def)
    next
      case (Cons p ps)
      with a have "0 \<le> fst p" by simp
      with neg Cons show ?thesis by (simp add: start_dance_def)
    qed
    from run_queries_blocked_preserved [OF st this assms(1)] show ?thesis
      by (intro blocked_query_noop [where e = "seconds_of (t2 - s)" and s = s]) simp_all
  qed
qed

theorem earlier_time_is_silent_noop_witness:
  "run_queries
     (start_dance \<lparr>dance_sequence = [(0, Move 1 0), (1, FinishedDance)], action_index = 0,
                   start_time = None\<rparr> 0) [500000000]
     = Inr ([[Move 1 0]],
            \<lparr>dance_sequence = [(0, Move 1 0), (1, FinishedDance)], action_index = 1,
             start_time = Some 0\<rparr>)
   \<and> (500000000::int) \<in> set [500000000] \<and> (200000000::int) < 500000000
   \<and> get_next_actions
       \<lparr>dance_sequence = [(0, Move 1 0), (1, FinishedDance)], action_index = 1,
        start_time = Some 0\<rparr> 200000000
     = Inr ([], \<lparr>dance_sequence = [(0, Move 1 0), (1, FinishedDance)], action_index = 1,
                 start_time = Some 0\<rparr>)"
proof -
  have r: "run_queries
     (start_dance \<lparr>dance_sequence = [(0, Move 1 0), (1, FinishedDance)], action_index = 0,
                   start_time = None\<rparr> 0) [500000000]
     = Inr ([[Move 1 0]],
            \<lparr>dance_sequence = [(0, Move 1 0), (1, FinishedDance)], action_index = 1,
             start_time = Some 0\<rparr>)"
    by (simp add: get_next_actions_Some start_dance_def seconds_of_def)
  from earlier_time_is_silent_noop [OF r, of 500000000 200000000] r show ?thesis
    by simp
qed

text \<open>
  The claim as stated fails: on the script \<open>[(0.1, Move 1 0), (0.3, FinishedDance)]\<close>
  started at time 0, a query at 0.2 s followed by a query at 0.1 s returns normally both
  times, the second time with the empty list; and in the timer callback the tick whose
  clock reading went back logs nothing at all.
\<close>

theorem clock_regression_counterexample:
  "run_queries
     (start_dance \<lparr>dance_sequence = [(1 / 10, Move 1 0), (3 / 10, FinishedDance)],
                   action_index = 0, start_time = None\<rparr> 0)
     [200000000, 100000000]
   = Inr ([[Move 1 0], []],
          \<lparr>dance_sequence = [(1 / 10, Move 1 0), (3 / 10, FinishedDance)],
           action_index = 1, start_time = Some 0\<rparr>)
   \<and> map_sum id (map logs \<circ> fst)
       (run_ticks
          (DanceCommandPublisher_init
             \<lparr>dance_sequence = [(1 / 10, Move 1 0), (3 / 10, FinishedDance)],
              action_index = 0, start_time = None\<rparr>)
          [\<lparr>now = 0, vel_subscription_count = 1, lights_subscription_count = 0\<rparr>,
           \<lparr>now = 200000000, vel_subscription_count = 1, lights_subscription_count = 0\<rparr>,
           \<lparr>now = 100000000, vel_subscription_count = 1, lights_subscription_count = 0\<rparr>])
     = Inr [[StartLog 0], [MoveLog (1 / 5) 1 0], []]"
  by (simp add: get_next_actions_Some start_dance_def seconds_of_def timer_callback_def
        publish_step_def DanceCommandPublisher_init_def Let_def)

text \<open>
  Claim C5, as the code has it. Neither constructor validates anything: \<^verbatim>\<open>Lights\<close> stores
  whatever colour list it is given, \<^verbatim>\<open>DanceChoreographer\<close> stores whatever list of pairs it
  is given, with the cursor at 0, and neither can raise. The choreographer then replays the
  script as written: once started, \<^verbatim>\<open>get_next_actions\<close> returns normally on every script,
  well-formed or not, and leaves the script as it was.
\<close>

theorem construction_is_unchecked:
  "Lights_init cs = Inr (Lights cs)
   \<and> (\<exists>c0. DanceChoreographer_init ds = Inr c0
          \<and> dance_sequence c0 = ds \<and> action_index c0 = 0
          \<and> (\<exists>acts c1. get_next_actions (start_dance c0 s) t = Inr (acts, c1)
                 \<and> dance_sequence c1 = ds))"
proof -
  let ?c0 = "\<lparr>dance_sequence = ds, action_index = 0, start_time = None\<rparr>"
  have "start_time (start_dance ?c0 s) = Some s"
    by (simp add: start_dance_def)
  from get_next_actions_Some [OF this, of t]
  have "\<exists>acts c1. get_next_actions (start_dance ?c0 s) t = Inr (acts, c1)
          \<and> dance_sequence c1 = ds"
    by (simp add: start_dance_def)
  then show ?thesis
    by (simp add: Lights_init_def DanceChoreographer_init_def)
qed

text \<open>
  The claim as stated fails: a \<^verbatim>\<open>Lights\<close> action with no colours at all is constructed, and
  so is a choreographer whose script has a decreasing and negative offset.
\<close>

theorem invalid_script_counterexample:
  "Lights_init [] = Inr (Lights [])
   \<and> DanceChoreographer_init [(2, Lights []), (- 1, FinishedDance)]
       = Inr \<lparr>dance_sequence = [(2, Lights []), (- 1, FinishedDance)],
              action_index = 0, start_time = None\<rparr>"
  by (simp add: Lights_init_def DanceChoreographer_init_def)

section \<open>The timer callback\<close>

lemma publish_step_idle:
  assumes "get_next_actions (dance_choreographer st) t = Inr ([], c')"
  shows "publish_step st t lg0 =
           Inr (\<lparr>logs = lg0,
                 pubs = [PubVel (last_twist st),
                         PubLights ((last_lightring st)
                           \<lparr>header := (header (last_lightring st))\<lparr>stamp := to_msg t\<rparr>\<rparr>)]\<rparr>,
                st\<lparr>last_lightring := (last_lightring st)
                           \<lparr>header := (header (last_lightring st))\<lparr>stamp := to_msg t\<rparr>\<rparr>\<rparr>)"
proof -
  from assms have "c' = dance_choreographer st"
    by (rule get_next_actions_idle_same)
  with assms show ?thesis
    by (simp add: publish_step_def Let_def)
qed

lemma publish_step_pubs:
  assumes "publish_step st t lg0 = Inr (out, st')"
  shows "pubs out = [PubVel (last_twist st'), PubLights (last_lightring st')]
         \<and> ready st' = ready st"
  using assms
  by (auto simp: publish_step_def Let_def split: sum.splits prod.splits)

lemma timer_callback_pubs:
  assumes "timer_callback st i = Inr (out, st')" and "ready st'"
  shows "pubs out = [PubVel (last_twist st'), PubLights (last_lightring st')]"
proof (cases "ready st")
  case True
  with assms(1) have "publish_step st (now i) [] = Inr (out, st')"
    by (simp add: timer_callback_def Let_def)
  then show ?thesis
    using publish_step_pubs by blast
next
  case False
  show ?thesis
  proof (cases "vel_subscription_count i > 0 \<and> lights_subscription_count i \<ge> 0")
    case True
    with False assms(1) have
      "publish_step
         (st\<lparr>ready := True,
             dance_choreographer := start_dance (dance_choreographer st) (now i)\<rparr>)
         (now i) [StartLog (seconds_of (now i))] = Inr (out, st')"
      by (simp add: timer_callback_def Let_def)
    then show ?thesis
      using publish_step_pubs by blast
  next
    case nc: False
    with False assms(1) have "\<not> ready st'"
      by (auto simp: timer_callback_def Let_def split: if_splits)
    with assms(2) show ?thesis by simp
  qed
qed

lemma timer_callback_idle:
  assumes "ready st" and "get_next_actions (dance_choreographer st) (now i) = Inr ([], c')"
  shows "timer_callback st i =
           Inr (\<lparr>logs = [],
                 pubs = [PubVel (last_twist st),
                         PubLights ((last_lightring st)
                           \<lparr>header := (header (last_lightring st))\<lparr>stamp := to_msg (now i)\<rparr>\<rparr>)]\<rparr>,
                st\<lparr>last_lightring := (last_lightring st)
                           \<lparr>header := (header (last_lightring st))\<lparr>stamp := to_msg (now i)\<rparr>\<rparr>\<rparr>)"
  using assms(1) publish_step_idle [OF assms(2), of "[]"]
  by (simp add: timer_callback_def Let_def)

lemma run_ticks_idle:
  "ready st \<Longrightarrow>
   \<forall>i\<in>set ins. get_next_actions (dance_choreographer st) (now i)
                  = Inr ([], dance_choreographer st) \<Longrightarrow>
   \<exists>st'. run_ticks st ins =
            Inr (map (\<lambda>i. \<lparr>logs = [],
                           pubs = [PubVel (last_twist st),
                                   PubLights ((last_lightring st)
                                     \<lparr>header := (header (last_lightring st))
                                         \<lparr>stamp := to_msg (now i)\<rparr>\<rparr>)]\<rparr>) ins, st')"
proof (induction ins arbitrary: st)
  case Nil
  then show ?case by simp
next
  case (Cons i ins)
  let ?lr = "(last_lightring st)\<lparr>header := (header (last_lightring st))\<lparr>stamp := to_msg (now i)\<rparr>\<rparr>"
  let ?st1 = "st\<lparr>last_lightring := ?lr\<rparr>"
  have step: "timer_callback st i =
                Inr (\<lparr>logs = [], pubs = [PubVel (last_twist st), PubLights ?lr]\<rparr>, ?st1)"
    using Cons.prems by (intro timer_callback_idle) simp_all
  have "ready ?st1"
    using Cons.prems(1) by simp
  moreover have "\<forall>j\<in>set ins. get_next_actions (dance_choreographer ?st1) (now j)
                   = Inr ([], dance_choreographer ?st1)"
    using Cons.prems(2) by simp
  ultimately obtain st' where
    "run_ticks ?st1 ins =
       Inr (map (\<lambda>j. \<lparr>logs = [],
                      pubs = [PubVel (last_twist ?st1),
                              PubLights ((last_lightring ?st1)
                                \<lparr>header := (header (last_lightring ?st1))
                                    \<lparr>stamp := to_msg (now j)\<rparr>\<rparr>)]\<rparr>) ins, st')"
    using Cons.IH [of ?st1] by blast
  with step show ?case
    by simp
qed

lemma apply_actions_ends_finished:
  "apply_actions t (acts @ [FinishedDance]) s0 = Inr (tw, lr, lg) \<Longrightarrow>
   tw = Twist_init \<and> lr = LightringLeds_init\<lparr>override_system := False\<rparr>"
proof (induction acts arbitrary: s0)
  case Nil
  then show ?case
    by (cases s0) (auto simp: Twist_init_def)
next
  case (Cons a acts)
  obtain tw0 lr0 lg0 where s0: "s0 = (tw0, lr0, lg0)"
    by (cases s0)
  show ?case
  proof (cases a)
    case (Move x theta)
    with Cons.prems s0 show ?thesis
      by (auto dest: Cons.IH)
  next
    case (Lights cs)
    with Cons.prems s0 show ?thesis
      by (cases cs) (auto dest: Cons.IH)
  next
    case FinishedDance
    with Cons.prems s0 show ?thesis
      by (auto dest: Cons.IH)
  qed
qed

text \<open>
  Claim C2. Take a tick that returned and left the publisher ready (so it published), and
  let the next tick find no new action. Then the previous tick published exactly one
  velocity command and one light command, and the next tick returns, logs nothing and
  publishes exactly the same velocity command and the same light command with only the
  stamp of its header set to the current time. The two latched commands stay in
  \<^verbatim>\<open>last_twist\<close> and \<^verbatim>\<open>last_lightring\<close>.
\<close>

theorem latch_persistence:
  assumes "timer_callback st i1 = Inr (out1, st1)" and "ready st1"
    and "get_next_actions (dance_choreographer st1) (now i2) = Inr ([], c2)"
  shows "\<exists>tw lr st2.
           pubs out1 = [PubVel tw, PubLights lr]
           \<and> timer_callback st1 i2 =
               Inr (\<lparr>logs = [],
                     pubs = [PubVel tw,
                             PubLights (lr\<lparr>header := (header lr)\<lparr>stamp := to_msg (now i2)\<rparr>\<rparr>)]\<rparr>,
                    st2)
           \<and> ready st2
           \<and> last_twist st2 = tw
           \<and> last_lightring st2 = lr\<lparr>header := (header lr)\<lparr>stamp := to_msg (now i2)\<rparr>\<rparr>"
proof -
  let ?tw = "last_twist st1" and ?lr = "last_lightring st1"
  let ?lr2 = "?lr\<lparr>header := (header ?lr)\<lparr>stamp := to_msg (now i2)\<rparr>\<rparr>"
  have p1: "pubs out1 = [PubVel ?tw, PubLights ?lr]"
    using assms(1,2) by (rule timer_callback_pubs)
  have t2: "timer_callback st1 i2 =
              Inr (\<lparr>logs = [], pubs = [PubVel ?tw, PubLights ?lr2]\<rparr>,
                   st1\<lparr>last_lightring := ?lr2\<rparr>)"
    using assms(2,3) by (rule timer_callback_idle)
  have "ready (st1\<lparr>last_lightring := ?lr2\<rparr>)"
    and "last_twist (st1\<lparr>last_lightring := ?lr2\<rparr>) = ?tw"
    and "last_lightring (st1\<lparr>last_lightring := ?lr2\<rparr>) = ?lr2"
    using assms(2) by simp_all
  with p1 t2 show ?thesis
    by blast
qed

theorem latch_persistence_witness:
  "\<exists>out1 st1.
     timer_callback
       (DanceCommandPublisher_init
          \<lparr>dance_sequence = [(0, Move 1 0), (1, FinishedDance)], action_index = 0,
           start_time = None\<rparr>)
       \<lparr>now = 0, vel_subscription_count = 1, lights_subscription_count = 0\<rparr>
       = Inr (out1, st1)
     \<and> ready st1
     \<and> get_next_actions (dance_choreographer st1) 500000000
         = Inr ([], dance_choreographer st1)
     \<and> pubs out1 =
         [PubVel (Twist_init\<lparr>linear_x := 1, angular_z := 0\<rparr>),
          PubLights (LightringLeds_init\<lparr>header := (header LightringLeds_init)\<lparr>stamp := to_msg 0\<rparr>\<rparr>)]
     \<and> map_sum id (pubs \<circ> fst)
         (timer_callback st1
            \<lparr>now = 500000000, vel_subscription_count = 1, lights_subscription_count = 0\<rparr>)
         = Inr [PubVel (Twist_init\<lparr>linear_x := 1, angular_z := 0\<rparr>),
                PubLights (LightringLeds_init
                   \<lparr>header := (header LightringLeds_init)\<lparr>stamp := to_msg 500000000\<rparr>\<rparr>)]"
proof -
  obtain out1 st1 where
    t1: "timer_callback
           (DanceCommandPublisher_init
              \<lparr>dance_sequence = [(0, Move 1 0), (1, FinishedDance)], action_index = 0,
               start_time = None\<rparr>)
           \<lparr>now = 0, vel_subscription_count = 1, lights_subscription_count = 0\<rparr>
           = Inr (out1, st1)"
    and r: "ready st1"
    and g: "get_next_actions (dance_choreographer st1)
              (now \<lparr>now = 500000000, vel_subscription_count = 1,
                    lights_subscription_count = 0\<rparr>)
              = Inr ([], dance_choreographer st1)"
    and p: "pubs out1 =
         [PubVel (Twist_init\<lparr>linear_x := 1, angular_z := 0\<rparr>),
          PubLights (LightringLeds_init\<lparr>header := (header LightringLeds_init)\<lparr>stamp := to_msg 0\<rparr>\<rparr>)]"
    by (simp add: get_next_actions_Some start_dance_def seconds_of_def timer_callback_def
          publish_step_def DanceCommandPublisher_init_def LightringLeds_init_def Let_def)
  from latch_persistence [OF t1 r g] p t1 r g show ?thesis
    by auto
qed

text \<open>
  Claim C4. Let a tick return and leave the publisher ready, and let the actions it consumed
  end with \<^verbatim>\<open>FinishedDance\<close> (the choreographer it queried is the publisher's own, just
  started when the tick is the one that becomes ready). Then every following run of ticks on
  which no action fires returns, and each of its ticks publishes a velocity command with all
  linear and angular components zero and a light command with \<^verbatim>\<open>override_system\<close> false,
  however long the run is.
\<close>

theorem finished_resets_latches:
  assumes "timer_callback st i = Inr (out, st1)" and "ready st1"
    and "get_next_actions
           (if ready st then dance_choreographer st
            else start_dance (dance_choreographer st) (now i)) (now i)
           = Inr (acts @ [FinishedDance], c1)"
    and "\<forall>j\<in>set ins. get_next_actions (dance_choreographer st1) (now j)
                         = Inr ([], dance_choreographer st1)"
  shows "\<exists>outs st2. run_ticks st1 ins = Inr (outs, st2)
           \<and> length outs = length ins
           \<and> (\<forall>r\<in>set outs. \<exists>tw lr. pubs r = [PubVel tw, PubLights lr]
                 \<and> linear_x tw = 0 \<and> linear_y tw = 0 \<and> linear_z tw = 0
                 \<and> angular_x tw = 0 \<and> angular_y tw = 0 \<and> angular_z tw = 0
                 \<and> override_system lr = False)"
proof -
  let ?q = "if ready st then st
            else st\<lparr>ready := True,
                    dance_choreographer := start_dance (dance_choreographer st) (now i)\<rparr>"
  let ?lg0 = "if ready st then [] else [StartLog (seconds_of (now i))]"
  have ps: "publish_step ?q (now i) ?lg0 = Inr (out, st1)"
    using assms(1,2)
    by (auto simp: timer_callback_def Let_def split: if_splits)
  have g: "get_next_actions (dance_choreographer ?q) (now i) = Inr (acts @ [FinishedDance], c1)"
    using assms(3) by (simp split: if_splits)
  from ps g obtain tw lr lg where
    a: "apply_actions (now i) (acts @ [FinishedDance])
          (last_twist ?q, last_lightring ?q, ?lg0) = Inr (tw, lr, lg)" and
    s1: "last_twist st1 = tw"
        "last_lightring st1 = lr\<lparr>header := (header lr)\<lparr>stamp := to_msg (now i)\<rparr>\<rparr>"
    by (auto simp: publish_step_def Let_def split: sum.splits prod.splits)
  from apply_actions_ends_finished [OF a] s1 have
    z: "last_twist st1 = Twist_init" and ov: "override_system (last_lightring st1) = False"
    by simp_all
  from run_ticks_idle [OF assms(2,4)] obtain st2 where
    r: "run_ticks st1 ins =
          Inr (map (\<lambda>j. \<lparr>logs = [],
                         pubs = [PubVel (last_twist st1),
                                 PubLights ((last_lightring st1)
                                   \<lparr>header := (header (last_lightring st1))
                                       \<lparr>stamp := to_msg (now j)\<rparr>\<rparr>)]\<rparr>) ins, st2)"
    by blast
  show ?thesis
    using r z ov by (auto simp: Twist_init_def)
qed

theorem finished_resets_latches_witness:
  "let c = \<lparr>dance_sequence = [(0, Move 1 0), (0, FinishedDance), (9, Move 2 0)],
            action_index = 0, start_time = None\<rparr>;
       c1 = c\<lparr>action_index := 2, start_time := Some 0\<rparr>;
       i = \<lparr>now = 0, vel_subscription_count = 1, lights_subscription_count = 0\<rparr>;
       j = \<lparr>now = 50000000, vel_subscription_count = 1, lights_subscription_count = 0\<rparr>;
       lr = LightringLeds_init\<lparr>header := (header LightringLeds_init)\<lparr>stamp := to_msg 0\<rparr>\<rparr>;
       st1 = \<lparr>dance_choreographer = c1, last_twist = Twist_init, last_lightring = lr,
              ready = True, last_wait_subscriber_printout = None\<rparr>
   in timer_callback (DanceCommandPublisher_init c) i
        = Inr (\<lparr>logs = [StartLog 0, MoveLog 0 1 0, FinishedLog 0],
                pubs = [PubVel Twist_init, PubLights lr]\<rparr>, st1)
      \<and> ready st1
      \<and> get_next_actions (start_dance c 0) 0 = Inr ([Move 1 0] @ [FinishedDance], c1)
      \<and> get_next_actions c1 50000000 = Inr ([], c1)
      \<and> map_sum id (map pubs \<circ> fst) (run_ticks st1 [j])
          = Inr [[PubVel Twist_init,
                  PubLights (lr\<lparr>header := (header lr)\<lparr>stamp := to_msg 50000000\<rparr>\<rparr>)]]"
proof -
  let ?c = "\<lparr>dance_sequence = [(0, Move 1 0), (0, FinishedDance), (9, Move 2 0)],
             action_index = 0, start_time = None\<rparr>"
  let ?c1 = "?c\<lparr>action_index := 2, start_time := Some 0\<rparr>"
  let ?st = "DanceCommandPublisher_init ?c"
  let ?i = "\<lparr>now = 0, vel_subscription_count = 1, lights_subscription_count = 0\<rparr>"
  let ?j = "\<lparr>now = 50000000, vel_subscription_count = 1, lights_subscription_count = 0\<rparr>"
  let ?lr = "LightringLeds_init\<lparr>header := (header LightringLeds_init)\<lparr>stamp := to_msg 0\<rparr>\<rparr>"
  let ?st1 = "\<lparr>dance_choreographer = ?c1, last_twist = Twist_init, last_lightring = ?lr,
               ready = True, last_wait_subscriber_printout = None\<rparr>"
  let ?out = "\<lparr>logs = [StartLog 0, MoveLog 0 1 0, FinishedLog 0],
               pubs = [PubVel Twist_init, PubLights ?lr]\<rparr>"
  have t1: "timer_callback ?st ?i = Inr (?out, ?st1)"
    by (simp add: get_next_actions_Some start_dance_def seconds_of_def timer_callback_def
          publish_step_def DanceCommandPublisher_init_def LightringLeds_init_def Twist_init_def
          Let_def)
  have r: "ready ?st1"
    by simp
  have g: "get_next_actions
             (if ready ?st then dance_choreographer ?st
              else start_dance (dance_choreographer ?st) (now ?i)) (now ?i)
             = Inr ([Move 1 0] @ [FinishedDance], ?c1)"
    by (simp add: get_next_actions_Some start_dance_def seconds_of_def
          DanceCommandPublisher_init_def)
  have g': "get_next_actions (start_dance ?c 0) 0 = Inr ([Move 1 0] @ [FinishedDance], ?c1)"
    using g by (simp add: DanceCommandPublisher_init_def)
  have idle: "\<forall>j\<in>set [?j]. get_next_actions (dance_choreographer ?st1) (now j)
                = Inr ([], dance_choreographer ?st1)"
    by (simp add: get_next_actions_Some seconds_of_def)
  have t2: "map_sum id (map pubs \<circ> fst) (run_ticks ?st1 [?j])
              = Inr [[PubVel Twist_init,
                      PubLights (?lr\<lparr>header := (header ?lr)\<lparr>stamp := to_msg 50000000\<rparr>\<rparr>)]]"
    using timer_callback_idle [OF r, of ?j "dance_choreographer ?st1"] idle
    by simp
  from finished_resets_latches [OF t1 r g idle] t1 r g' idle t2 show ?thesis
    by (simp add: Let_def)
qed

text \<open>
  The hypothesis that \<^verbatim>\<open>FinishedDance\<close> is the last action consumed matters: an action that
  follows it in the same tick is applied after the reset, so a \<^verbatim>\<open>Move\<close> that shares the
  offset of a preceding \<^verbatim>\<open>FinishedDance\<close> stays latched.
\<close>

lemma move_after_finished_stays_latched:
  "apply_actions 0 [FinishedDance, Move 1 0] (Twist_init, LightringLeds_init, [])
     = Inr (Twist_init\<lparr>linear_x := 1, angular_z := 0\<rparr>,
            LightringLeds_init\<lparr>override_system := False\<rparr>,
            [FinishedLog 0, MoveLog 0 1 0])"
  by (simp add: seconds_of_def)

text \<open>
  Claim C10. \<^verbatim>\<open>start_dance\<close> writes only to the choreographer. Restarting the dance of a
  ready publisher leaves \<^verbatim>\<open>last_twist\<close> and \<^verbatim>\<open>last_lightring\<close> as they were, and as long
  as no action fires after the restart every tick returns and publishes the velocity
  command and the light command latched before the restart, the latter with only its stamp
  set to the time of the tick.
\<close>

theorem restart_keeps_latches:
  assumes "ready st"
    and "\<forall>i\<in>set ins. get_next_actions (start_dance (dance_choreographer st) t) (now i)
                         = Inr ([], start_dance (dance_choreographer st) t)"
  shows "last_twist (st\<lparr>dance_choreographer := start_dance (dance_choreographer st) t\<rparr>)
           = last_twist st
         \<and> last_lightring (st\<lparr>dance_choreographer := start_dance (dance_choreographer st) t\<rparr>)
           = last_lightring st
         \<and> (\<exists>st'. run_ticks
                     (st\<lparr>dance_choreographer := start_dance (dance_choreographer st) t\<rparr>) ins
                   = Inr (map (\<lambda>i. \<lparr>logs = [],
                                     pubs = [PubVel (last_twist st),
                                             PubLights ((last_lightring st)
                                               \<lparr>header := (header (last_lightring st))
                                                   \<lparr>stamp := to_msg (now i)\<rparr>\<rparr>)]\<rparr>) ins,
                          st'))"
proof -
  let ?st0 = "st\<lparr>dance_choreographer := start_dance (dance_choreographer st) t\<rparr>"
  have "ready ?st0"
    using assms(1) by simp
  moreover have "\<forall>i\<in>set ins. get_next_actions (dance_choreographer ?st0) (now i)
                   = Inr ([], dance_choreographer ?st0)"
    using assms(2) by simp
  ultimately obtain st' where
    "run_ticks ?st0 ins =
       Inr (map (\<lambda>i. \<lparr>logs = [],
                      pubs = [PubVel (last_twist ?st0),
                              PubLights ((last_lightring ?st0)
                                \<lparr>header := (header (last_lightring ?st0))
                                    \<lparr>stamp := to_msg (now i)\<rparr>\<rparr>)]\<rparr>) ins, st')"
    using run_ticks_idle [of ?st0 ins] by blast
  then show ?thesis
    by simp
qed

theorem restart_keeps_latches_witness:
  "let c = \<lparr>dance_sequence = [(1 / 2, Move 1 0), (1, Move 2 0)], action_index = 1,
            start_time = Some 0\<rparr>;
       lr = LightringLeds_init\<lparr>override_system := True\<rparr>;
       st = \<lparr>dance_choreographer = c, last_twist = Twist_init\<lparr>linear_x := 1\<rparr>,
             last_lightring = lr, ready = True, last_wait_subscriber_printout = None\<rparr>;
       j = \<lparr>now = 600000000, vel_subscription_count = 1, lights_subscription_count = 0\<rparr>
   in ready st
      \<and> get_next_actions (start_dance c 500000000) (now j)
          = Inr ([], start_dance c 500000000)
      \<and> map_sum id (map pubs \<circ> fst)
          (run_ticks (st\<lparr>dance_choreographer := start_dance c 500000000\<rparr>) [j])
          = Inr [[PubVel (Twist_init\<lparr>linear_x := 1\<rparr>),
                  PubLights (lr\<lparr>header := (header lr)\<lparr>stamp := to_msg 600000000\<rparr>\<rparr>)]]"
proof -
  let ?c = "\<lparr>dance_sequence = [(1 / 2, Move 1 0), (1, Move 2 0)], action_index = 1,
             start_time = Some 0\<rparr>"
  let ?lr = "LightringLeds_init\<lparr>override_system := True\<rparr>"
  let ?st = "\<lparr>dance_choreographer = ?c, last_twist = Twist_init\<lparr>linear_x := 1\<rparr>,
              last_lightring = ?lr, ready = True, last_wait_subscriber_printout = None\<rparr>"
  let ?j = "\<lparr>now = 600000000, vel_subscription_count = 1, lights_subscription_count = 0\<rparr>"
  have r: "ready ?st"
    by simp
  have idle: "\<forall>i\<in>set [?j]. get_next_actions (start_dance (dance_choreographer ?st) 500000000) (now i)
                = Inr ([], start_dance (dance_choreographer ?st) 500000000)"
    by (simp add: get_next_actions_Some start_dance_def seconds_of_def)
  from restart_keeps_latches [OF r idle] idle show ?thesis
    by (auto simp: Let_def)
qed

lemma timer_callback_waiting:
  assumes "\<not> ready st"
    and "\<not> (vel_subscription_count i > 0 \<and> lights_subscription_count i \<ge> 0)"
  shows "timer_callback st i =
           (if last_wait_subscriber_printout st = None
               \<or> now i - the (last_wait_subscriber_printout st) > 5000000000
            then Inr (\<lparr>logs = [WaitingLog], pubs = []\<rparr>,
                      st\<lparr>last_wait_subscriber_printout := Some (now i)\<rparr>)
            else Inr (\<lparr>logs = [], pubs = []\<rparr>, st))"
  using assms by (simp add: timer_callback_def Let_def seconds_of_gt5)

lemma run_ticks_waiting:
  "\<not> ready st \<Longrightarrow>
   \<forall>i\<in>set ins. \<not> (vel_subscription_count i > 0 \<and> lights_subscription_count i \<ge> 0) \<Longrightarrow>
   \<exists>outs st'. run_ticks st ins = Inr (outs, st') \<and> length outs = length ins
     \<and> \<not> ready st'
     \<and> (\<forall>out\<in>set outs. pubs out = [] \<and> (logs out = [] \<or> logs out = [WaitingLog]))
     \<and> sorted_wrt (\<lambda>a b. b - a > 5000000000)
          (map (now \<circ> fst) (filter (\<lambda>p. logs (snd p) = [WaitingLog]) (zip ins outs)))
     \<and> (\<forall>l. last_wait_subscriber_printout st = Some l \<longrightarrow>
            (\<forall>w\<in>set (map (now \<circ> fst)
                         (filter (\<lambda>p. logs (snd p) = [WaitingLog]) (zip ins outs))).
               w - l > 5000000000))"
proof (induction ins arbitrary: st)
  case Nil
  then show ?case by simp
next
  case (Cons i ins)
  let ?W = "\<lambda>xs ys. map (now \<circ> fst) (filter (\<lambda>p. logs (snd p) = [WaitingLog]) (zip xs ys))"
  let ?G = "\<lambda>a b::int. b - a > 5000000000"
  have nc: "\<not> (vel_subscription_count i > 0 \<and> lights_subscription_count i \<ge> 0)"
    and rest: "\<forall>j\<in>set ins. \<not> (vel_subscription_count j > 0 \<and> lights_subscription_count j \<ge> 0)"
    using Cons.prems(2) by simp_all
  note step = timer_callback_waiting [OF Cons.prems(1) nc]
  show ?case
  proof (cases "last_wait_subscriber_printout st = None
                \<or> now i - the (last_wait_subscriber_printout st) > 5000000000")
    case True
    let ?st1 = "st\<lparr>last_wait_subscriber_printout := Some (now i)\<rparr>"
    let ?o = "\<lparr>logs = [WaitingLog], pubs = []\<rparr>"
    have "\<not> ready ?st1"
      using Cons.prems(1) by simp
    from Cons.IH [OF this rest] obtain outs st' where
      r: "run_ticks ?st1 ins = Inr (outs, st')" and
      l: "length outs = length ins" and
      nr: "\<not> ready st'" and
      np: "\<forall>out\<in>set outs. pubs out = [] \<and> (logs out = [] \<or> logs out = [WaitingLog])" and
      sw: "sorted_wrt ?G (?W ins outs)" and
      af0: "\<forall>l. last_wait_subscriber_printout ?st1 = Some l \<longrightarrow>
              (\<forall>w\<in>set (?W ins outs). w - l > 5000000000)"
      by blast
    have af: "\<forall>w\<in>set (?W ins outs). w - now i > 5000000000"
      using af0 by simp
    have run: "run_ticks st (i # ins) = Inr (?o # outs, st')"
      using step True r by simp
    have W: "?W (i # ins) (?o # outs) = now i # ?W ins outs"
      by simp
    have c1: "length (?o # outs) = length (i # ins)"
      using l by simp
    have c2: "\<forall>out\<in>set (?o # outs). pubs out = [] \<and> (logs out = [] \<or> logs out = [WaitingLog])"
      using np by simp
    have c3: "sorted_wrt ?G (?W (i # ins) (?o # outs))"
      unfolding W using sw af by simp
    have c4: "\<forall>l. last_wait_subscriber_printout st = Some l \<longrightarrow>
               (\<forall>w\<in>set (?W (i # ins) (?o # outs)). w - l > 5000000000)"
    proof (intro allI impI ballI)
      fix l w
      assume ls: "last_wait_subscriber_printout st = Some l"
        and w: "w \<in> set (?W (i # ins) (?o # outs))"
      from True ls have g: "now i - l > 5000000000" by simp
      from w have "w = now i \<or> w \<in> set (?W ins outs)"
        unfolding W by simp
      then show "w - l > 5000000000"
      proof
        assume "w = now i"
        with g show ?thesis by simp
      next
        assume "w \<in> set (?W ins outs)"
        with af have "w - now i > 5000000000" by blast
        with g show ?thesis by linarith
      qed
    qed
    from run c1 nr c2 c3 c4 show ?thesis
      by blast
  next
    case False
    let ?o = "\<lparr>logs = [], pubs = []\<rparr>"
    from Cons.IH [OF Cons.prems(1) rest] obtain outs st' where
      r: "run_ticks st ins = Inr (outs, st')" and
      l: "length outs = length ins" and
      nr: "\<not> ready st'" and
      np: "\<forall>out\<in>set outs. pubs out = [] \<and> (logs out = [] \<or> logs out = [WaitingLog])" and
      sw: "sorted_wrt ?G (?W ins outs)" and
      af: "\<forall>l. last_wait_subscriber_printout st = Some l \<longrightarrow>
              (\<forall>w\<in>set (?W ins outs). w - l > 5000000000)"
      by blast
    have run: "run_ticks st (i # ins) = Inr (?o # outs, st')"
      using step False r by simp
    have W: "?W (i # ins) (?o # outs) = ?W ins outs"
      by simp
    have c1: "length (?o # outs) = length (i # ins)"
      using l by simp
    have c2: "\<forall>out\<in>set (?o # outs). pubs out = [] \<and> (logs out = [] \<or> logs out = [WaitingLog])"
      using np by simp
    have c3: "sorted_wrt ?G (?W (i # ins) (?o # outs))"
      unfolding W using sw .
    have c4: "\<forall>l. last_wait_subscriber_printout st = Some l \<longrightarrow>
               (\<forall>w\<in>set (?W (i # ins) (?o # outs)). w - l > 5000000000)"
      unfolding W using af .
    from run c1 nr c2 c3 c4 show ?thesis
      by blast
  qed
qed

text \<open>
  Claim C3. While the publisher is not ready and the subscriber check of the tick fails,
  the callback returns without publishing anything, stays not ready, and logs either
  nothing or the single waiting line. Over any run of such ticks, the clock readings of
  the ticks that logged the waiting line are pairwise more than 5 seconds
  (5000000000 ns) apart, so the line appears at most once in any 5-second window.
\<close>

theorem readiness_gating:
  assumes "\<not> ready st"
    and "\<forall>i\<in>set ins. \<not> (vel_subscription_count i > 0 \<and> lights_subscription_count i \<ge> 0)"
  shows "\<exists>outs st'. run_ticks st ins = Inr (outs, st') \<and> length outs = length ins
           \<and> \<not> ready st'
           \<and> (\<forall>out\<in>set outs. pubs out = [] \<and> (logs out = [] \<or> logs out = [WaitingLog]))
           \<and> sorted_wrt (\<lambda>a b. b - a > 5000000000)
                (map (now \<circ> fst)
                   (filter (\<lambda>p. logs (snd p) = [WaitingLog]) (zip ins outs)))"
  using run_ticks_waiting [OF assms] by blast

theorem readiness_gating_witness:
  "let st = DanceCommandPublisher_init
              \<lparr>dance_sequence = [(0, Move 1 0)], action_index = 0, start_time = None\<rparr>;
       ins = [\<lparr>now = 0, vel_subscription_count = 0, lights_subscription_count = 0\<rparr>,
              \<lparr>now = 3000000000, vel_subscription_count = 0, lights_subscription_count = 2\<rparr>,
              \<lparr>now = 6000000000, vel_subscription_count = 0, lights_subscription_count = 0\<rparr>]
   in \<not> ready st
      \<and> list_all (\<lambda>i. \<not> (vel_subscription_count i > 0 \<and> lights_subscription_count i \<ge> 0)) ins
      \<and> map_sum id fst (run_ticks st ins)
          = Inr [\<lparr>logs = [WaitingLog], pubs = []\<rparr>, \<lparr>logs = [], pubs = []\<rparr>,
                 \<lparr>logs = [WaitingLog], pubs = []\<rparr>]"
proof -
  let ?st = "DanceCommandPublisher_init
              \<lparr>dance_sequence = [(0, Move 1 0)], action_index = 0, start_time = None\<rparr>"
  let ?ins = "[\<lparr>now = 0, vel_subscription_count = 0, lights_subscription_count = 0\<rparr>,
              \<lparr>now = 3000000000, vel_subscription_count = 0, lights_subscription_count = 2\<rparr>,
              \<lparr>now = 6000000000, vel_subscription_count = 0, lights_subscription_count = 0\<rparr>]"
  have nr: "\<not> ready ?st"
    by (simp add: DanceCommandPublisher_init_def)
  have nc: "\<forall>i\<in>set ?ins. \<not> (vel_subscription_count i > 0 \<and> lights_subscription_count i \<ge> 0)"
    by simp
  have ev: "map_sum id fst (run_ticks ?st ?ins)
              = Inr [\<lparr>logs = [WaitingLog], pubs = []\<rparr>, \<lparr>logs = [], pubs = []\<rparr>,
                     \<lparr>logs = [WaitingLog], pubs = []\<rparr>]"
    by (simp add: timer_callback_def DanceCommandPublisher_init_def seconds_of_def Let_def)
  from readiness_gating [OF nr nc] nr nc ev show ?thesis
    by (simp add: Let_def)
qed

end
